theory Spec2Isabelle
  imports Main "HOL-Library.AList"
begin

section \<open>Go values used by trailer\_header.go\<close>

text \<open>
  A Go \<open>string\<close> and a \<open>[]byte\<close> are sequences of bytes; \<^typ>\<open>char\<close> is an
  8-bit value, so both are \<^typ>\<open>string\<close> here and \<open>[]byte(s)\<close> is the identity.
  Go's \<open>int\<close> is a signed machine integer of \<open>intSize\<close> bits, 64 on the
  platforms Go is usually built for; the program only compares ints and never does
  arithmetic on them, so an int is an \<^typ>\<open>int\<close> that lies in the range below
  (\<open>len\<close> always does, \<open>strconv.Atoi\<close> checks it).
\<close>

type_synonym bytes = string

definition intSize :: nat where
  "intSize = 64"

definition maxInt :: int where
  "maxInt = 2 ^ (intSize - 1) - 1"

definition minInt :: int where
  "minInt = - (2 ^ (intSize - 1))"

definition len :: "'a list \<Rightarrow> int" where
  "len xs = int (length xs)"

datatype goError = EOF | ErrClosedPipe | ErrUnexpectedEOF | ErrOther string

datatype goPanic = IndexOutOfRange nat nat

text \<open>\<open>xs[i]\<close> on a slice: a run-time panic when \<open>i\<close> is out of range.\<close>

definition index :: "'a list \<Rightarrow> nat \<Rightarrow> goPanic + 'a" where
  "index xs i = (if i < length xs then Inr (xs ! i) else Inl (IndexOutOfRange i (length xs)))"

section \<open>Standard library: strconv\<close>

text \<open>
  \<open>strconv.Atoi\<close> and \<open>strconv.Itoa\<close> belong to Go's standard library. They are
  modelled after the library's implementation: \<open>Atoi s\<close> is \<open>ParseInt(s, 10, 0)\<close>
  (the fast path for short strings computes the same result), which strips one
  optional sign, runs \<open>ParseUint\<close> over the rest and then checks the signed range.
\<close>

datatype numError = ErrSyntax | ErrRange

definition isDigit :: "char \<Rightarrow> bool" where
  "isDigit c = (48 \<le> (of_char c :: nat) \<and> (of_char c :: nat) \<le> 57)"

definition digitVal :: "char \<Rightarrow> nat" where
  "digitVal c = of_char c - 48"

definition digits :: string where
  "digits = ''0123456789''"

definition maxUint64 :: nat where
  "maxUint64 = 2 ^ 64 - 1"

text \<open>
  The digit loop of \<open>ParseUint\<close> for base 10 and 64 bits. A byte that is not a decimal
  digit is a syntax error; the two overflow tests come after the digit test of the same
  byte, as in the library, so a string that overflows before its first bad byte is a
  range error.
\<close>

fun parseUintLoop :: "nat \<Rightarrow> string \<Rightarrow> numError + nat" where
  "parseUintLoop n [] = Inr n"
| "parseUintLoop n (c # cs) =
     (if \<not> isDigit c then Inl ErrSyntax
      else if n \<ge> maxUint64 div 10 + 1 then Inl ErrRange
      else if n * 10 + digitVal c > maxUint64 then Inl ErrRange
      else parseUintLoop (n * 10 + digitVal c) cs)"

definition ParseUint :: "string \<Rightarrow> numError + nat" where
  "ParseUint s = (if s = [] then Inl ErrSyntax else parseUintLoop 0 s)"

definition ParseInt :: "string \<Rightarrow> numError + int" where
  "ParseInt s =
     (if s = [] then Inl ErrSyntax
      else
        let neg = (hd s = CHR ''-'');
            s1 = (if hd s = CHR ''+'' \<or> hd s = CHR ''-'' then tl s else s)
        in case ParseUint s1 of
             Inl ErrSyntax \<Rightarrow> Inl ErrSyntax
           | Inl ErrRange \<Rightarrow> Inl ErrRange
           | Inr un \<Rightarrow>
               if \<not> neg \<and> un \<ge> 2 ^ (intSize - 1) then Inl ErrRange
               else if neg \<and> un > 2 ^ (intSize - 1) then Inl ErrRange
               else Inr (if neg then - int un else int un))"

definition Atoi :: "string \<Rightarrow> numError + int" where
  "Atoi s = ParseInt s"

text \<open>\<open>strconv.Itoa\<close>: the decimal digits, most significant first, after a \<open>-\<close> for a
  negative number.\<close>

fun formatBits :: "nat \<Rightarrow> string" where
  "formatBits n = (if n < 10 then [digits ! n] else formatBits (n div 10) @ [digits ! (n mod 10)])"

declare formatBits.simps [simp del]

definition Itoa :: "int \<Rightarrow> string" where
  "Itoa i = (if i < 0 then CHR ''-'' # formatBits (nat (- i)) else formatBits (nat i))"

section \<open>Standard library: net/http headers\<close>

text \<open>
  \<open>http.Header\<close> is \<open>map[string][]string\<close>. A map is an association list with
  distinct keys here; the order of the list is the order in which a \<open>range\<close> over
  the map visits the entries, which Go leaves unspecified, so every statement below is
  about an arbitrary order. \<open>Header.Set\<close> and \<open>Header.Get\<close> canonicalise the key
  with \<open>textproto.CanonicalMIMEHeaderKey\<close>: a key made of token bytes gets an upper
  case letter first and after each hyphen and lower case letters elsewhere, any other
  key is left as it is.
\<close>

type_synonym header = "(string \<times> string list) list"

definition isLower :: "char \<Rightarrow> bool" where
  "isLower c = (97 \<le> (of_char c :: nat) \<and> (of_char c :: nat) \<le> 122)"

definition isUpper :: "char \<Rightarrow> bool" where
  "isUpper c = (65 \<le> (of_char c :: nat) \<and> (of_char c :: nat) \<le> 90)"

definition validHeaderFieldByte :: "char \<Rightarrow> bool" where
  "validHeaderFieldByte c =
     (isDigit c \<or> isLower c \<or> isUpper c \<or> List.member ''!#$%&*+-.^_|~'' c
      \<or> (of_char c :: nat) = 39 \<or> (of_char c :: nat) = 96)"

fun canonicalLoop :: "bool \<Rightarrow> string \<Rightarrow> string" where
  "canonicalLoop upper [] = []"
| "canonicalLoop upper (c # cs) =
     (let c' = (if upper \<and> isLower c then char_of ((of_char c :: nat) - 32)
                else if \<not> upper \<and> isUpper c then char_of ((of_char c :: nat) + 32)
                else c)
      in c' # canonicalLoop (c' = CHR ''-'') cs)"

definition CanonicalMIMEHeaderKey :: "string \<Rightarrow> string" where
  "CanonicalMIMEHeaderKey s = (if list_all validHeaderFieldByte s then canonicalLoop True s else s)"

definition headerSet :: "header \<Rightarrow> string \<Rightarrow> string \<Rightarrow> header" where
  "headerSet h key val = AList.update (CanonicalMIMEHeaderKey key) [val] h"

definition headerGet :: "header \<Rightarrow> string \<Rightarrow> string" where
  "headerGet h key =
     (case map_of h (CanonicalMIMEHeaderKey key) of
        None \<Rightarrow> []
      | Some v \<Rightarrow> (case v of [] \<Rightarrow> [] | x # _ \<Rightarrow> x))"

section \<open>Standard library: requests, bodies and response writers\<close>

text \<open>
  The body of a server request is a reader: it yields \<open>content\<close> and then the error
  \<open>readErr\<close>, which is \<open>EOF\<close> at a clean end of the stream. For a server request
  net/http keeps in \<open>r.Trailer\<close> only what the header section announced until a
  read of the body has returned \<open>io.EOF\<close>; from then on \<open>r.Trailer\<close> holds the
  trailer fields that came after the last chunk. \<open>trailerAtEOF\<close> is that later map.
  \<open>io.ReadAll\<close> reads until the reader's error and reports \<open>EOF\<close> as success.
\<close>

record body =
  content :: bytes
  readErr :: goError
  trailerAtEOF :: header

record 'b request =
  Method :: string
  URL :: string
  Header :: header
  Body :: 'b
  Trailer :: header

definition ReadAll :: "body request \<Rightarrow> (bytes \<times> goError option) \<times> body request" where
  "ReadAll r =
     (if readErr (Body r) = EOF
      then ((content (Body r), None), r\<lparr>Trailer := trailerAtEOF (Body r)\<rparr>)
      else ((content (Body r), Some (readErr (Body r))), r))"

text \<open>
  An \<open>http.ResponseWriter\<close>: the status line goes out with the first
  \<open>WriteHeader\<close> (or with status 200 at the first \<open>Write\<close>), later calls of
  \<open>WriteHeader\<close> change nothing. \<open>written\<close> is what has been handed to \<open>Write\<close>;
  whether \<open>Write\<close> reports an error is decided by the connection, not by the handler.
  \<open>http.Error\<close> sends the status and the message followed by a newline.
\<close>

record responseWriter =
  status :: "nat option"
  written :: bytes

definition StatusOK :: nat where
  "StatusOK = 200"

definition StatusInternalServerError :: nat where
  "StatusInternalServerError = 500"

definition WriteHeader :: "nat \<Rightarrow> responseWriter \<Rightarrow> responseWriter" where
  "WriteHeader code w = (if status w = None then w\<lparr>status := Some code\<rparr> else w)"

definition Write :: "bytes \<Rightarrow> responseWriter \<Rightarrow> responseWriter" where
  "Write b w = (let w' = WriteHeader StatusOK w in w'\<lparr>written := written w' @ b\<rparr>)"

definition httpError :: "responseWriter \<Rightarrow> string \<Rightarrow> nat \<Rightarrow> responseWriter" where
  "httpError w msg code = Write (msg @ [CHR 0x0A]) (WriteHeader code w)"

section \<open>The server handler\<close>

definition trailerHeaderName :: string where
  "trailerHeaderName = ''X-Body-Byte-Length''"

text \<open>
  What the handler does that can be seen from outside, in program order: the lines it
  logs or prints and its calls on the request and on the response writer. Each
  constructor stands for one statement of \<open>serverHandler\<close>; the comment gives its line.
\<close>

datatype event =
    LogReceived                        \<comment> \<open>29\<close>
  | LogMethod string                   \<comment> \<open>30\<close>
  | LogInitialHeaders                  \<comment> \<open>33\<close>
  | PrintHeader string "string list"   \<comment> \<open>35\<close>
  | LogAnnounced string                \<comment> \<open>40\<close>
  | CallReadAll                        \<comment> \<open>44\<close>
  | LogReadError goError               \<comment> \<open>46\<close>
  | CallHttpError string nat           \<comment> \<open>47\<close>
  | LogReadBody int bytes              \<comment> \<open>51\<close>
  | LogTrailerHeaders                  \<comment> \<open>56\<close>
  | LenTrailer                         \<comment> \<open>57\<close>
  | PrintTrailer string "string list"  \<comment> \<open>59\<close>
  | LogParseError string numError      \<comment> \<open>65\<close>
  | LogReported int                    \<comment> \<open>67\<close>
  | LogMatch                           \<comment> \<open>70\<close>
  | LogMismatch                        \<comment> \<open>72\<close>
  | LogNoTrailers                      \<comment> \<open>78\<close>
  | CallWriteHeader nat                \<comment> \<open>82\<close>
  | CallWrite bytes                    \<comment> \<open>83\<close>
  | LogWriteError goError              \<comment> \<open>84\<close>
  | LogSent                            \<comment> \<open>86\<close>
  | CallBodyClose                      \<comment> \<open>28, deferred\<close>

text \<open>Lines 69 to 73: the comparison of the declared with the observed length.\<close>

definition verify :: "int \<Rightarrow> int \<Rightarrow> event" where
  "verify trailerLength calculatedBodyLength =
     (if trailerLength = calculatedBodyLength then LogMatch else LogMismatch)"

text \<open>Lines 59 to 75: the body of the loop over \<open>r.Trailer\<close>, for one entry.\<close>

definition trailerEntry :: "int \<Rightarrow> string \<Rightarrow> string list \<Rightarrow> goPanic + event list" where
  "trailerEntry calculatedBodyLength name values =
     (if name = trailerHeaderName \<and> len values > 0 then
        (case index values 0 of
           Inl p \<Rightarrow> Inl p
         | Inr trailerLengthStr \<Rightarrow>
             (case Atoi trailerLengthStr of
                Inl cerr \<Rightarrow> Inr [PrintTrailer name values, LogParseError trailerLengthStr cerr]
              | Inr trailerLength \<Rightarrow>
                  Inr [PrintTrailer name values, LogReported trailerLength,
                       verify trailerLength calculatedBodyLength]))
      else Inr [PrintTrailer name values])"

text \<open>Line 58: the loop; a panic in one entry ends it.\<close>

fun rangeTrailer :: "int \<Rightarrow> header \<Rightarrow> goPanic + event list" where
  "rangeTrailer calculatedBodyLength [] = Inr []"
| "rangeTrailer calculatedBodyLength ((name, values) # rest) =
     (case trailerEntry calculatedBodyLength name values of
        Inl p \<Rightarrow> Inl p
      | Inr es \<Rightarrow>
          (case rangeTrailer calculatedBodyLength rest of
             Inl p \<Rightarrow> Inl p
           | Inr es' \<Rightarrow> Inr (es @ es')))"

record handled =
  events :: "event list"
  writer :: responseWriter
  request :: "body request"

definition confirmation :: bytes where
  "confirmation = ''Server received your request and processed trailers.'' @ [CHR 0x0A]"

text \<open>
  \<open>serverHandler w r\<close>, with the error that the connection reports for the handler's
  \<open>w.Write\<close> as third argument. The result is a panic, or the events in program
  order with the final states of the response writer and of the request.
\<close>

definition serverHandler ::
    "responseWriter \<Rightarrow> body request \<Rightarrow> goError option \<Rightarrow> goPanic + handled" where
  "serverHandler w r writeErr =
     (let start = [LogReceived, LogMethod (Method r), LogInitialHeaders]
                  @ map (\<lambda>(name, values). PrintHeader name values) (Header r);
          trailerHeaderNames = headerGet (Header r) ''Trailer'';
          ((body, err), r1) = ReadAll r
      in case err of
           Some e \<Rightarrow>
             Inr \<lparr>events = start @ [LogAnnounced trailerHeaderNames, CallReadAll, LogReadError e,
                     CallHttpError ''Error reading request body'' StatusInternalServerError,
                     CallBodyClose],
                  writer = httpError w ''Error reading request body'' StatusInternalServerError,
                  request = r1\<rparr>
         | None \<Rightarrow>
             (let calculatedBodyLength = len body
              in case (if len (Trailer r1) > 0
                       then rangeTrailer calculatedBodyLength (Trailer r1)
                       else Inr [LogNoTrailers]) of
                   Inl p \<Rightarrow> Inl p
                 | Inr trailerEvents \<Rightarrow>
                     Inr \<lparr>events = start @ [LogAnnounced trailerHeaderNames, CallReadAll,
                             LogReadBody (len body) body, LogTrailerHeaders, LenTrailer]
                             @ trailerEvents
                             @ [CallWriteHeader StatusOK, CallWrite confirmation,
                                (case writeErr of Some e \<Rightarrow> LogWriteError e | None \<Rightarrow> LogSent),
                                CallBodyClose],
                          writer = Write confirmation (WriteHeader StatusOK w),
                          request = r1\<rparr>))"

section \<open>Standard library: io.Pipe\<close>

text \<open>
  An \<open>io.Pipe\<close> is synchronous: a \<open>Write\<close> returns when the reading side has taken
  all its bytes or when one side has closed the pipe. Each side records the error it
  was closed with once (\<open>rerr\<close>, \<open>werr\<close>; the first one stays); closing the write
  side without an error records \<open>EOF\<close>, closing the read side records
  \<open>ErrClosedPipe\<close>. \<open>delivered\<close> is what the reading side has taken so far.
  The reading side of the request body is the HTTP transport, which can only
  \<open>Read\<close> and \<open>Close\<close>; what it does while a \<open>Write\<close> is under way is the
  \<open>reader\<close> argument of \<open>pipeWrite\<close>.
\<close>

record pipe =
  rerr :: "goError option"
  werr :: "goError option"
  delivered :: bytes

definition Pipe :: pipe where
  "Pipe = \<lparr>rerr = None, werr = None, delivered = []\<rparr>"

definition pipeDone :: "pipe \<Rightarrow> bool" where
  "pipeDone p = (rerr p \<noteq> None \<or> werr p \<noteq> None)"

definition storeOnce :: "goError option \<Rightarrow> goError \<Rightarrow> goError option" where
  "storeOnce cur e = (case cur of None \<Rightarrow> Some e | Some x \<Rightarrow> Some x)"

definition closeWrite :: "goError option \<Rightarrow> pipe \<Rightarrow> pipe" where
  "closeWrite err p = p\<lparr>werr := storeOnce (werr p) (case err of None \<Rightarrow> EOF | Some e \<Rightarrow> e)\<rparr>"

definition closeRead :: "goError option \<Rightarrow> pipe \<Rightarrow> pipe" where
  "closeRead err p =
     p\<lparr>rerr := storeOnce (rerr p) (case err of None \<Rightarrow> ErrClosedPipe | Some e \<Rightarrow> e)\<rparr>"

definition writeCloseError :: "pipe \<Rightarrow> goError" where
  "writeCloseError p =
     (case (werr p, rerr p) of (None, Some e) \<Rightarrow> e | _ \<Rightarrow> ErrClosedPipe)"

definition readCloseError :: "pipe \<Rightarrow> goError" where
  "readCloseError p =
     (case (rerr p, werr p) of (None, Some e) \<Rightarrow> e | _ \<Rightarrow> ErrClosedPipe)"

datatype reader = Drains | ClosesAfter nat

definition pipeWrite :: "bytes \<Rightarrow> reader \<Rightarrow> pipe \<Rightarrow> (nat \<times> goError option) \<times> pipe" where
  "pipeWrite b rd p =
     (if pipeDone p then ((0, Some (writeCloseError p)), p)
      else case rd of
             Drains \<Rightarrow> ((length b, None), p\<lparr>delivered := delivered p @ b\<rparr>)
           | ClosesAfter k \<Rightarrow>
               if k < length b \<or> b = [] then
                 (let p' = closeRead None (p\<lparr>delivered := delivered p @ take k b\<rparr>)
                  in ((min k (length b), Some (writeCloseError p')), p'))
               else ((length b, None), p\<lparr>delivered := delivered p @ b\<rparr>))"

text \<open>\<open>PipeWriter.Close\<close> is \<open>CloseWithError(nil)\<close>; both always return \<open>nil\<close>.\<close>

definition pipeWriterCloseWithError :: "goError option \<Rightarrow> pipe \<Rightarrow> goError option \<times> pipe" where
  "pipeWriterCloseWithError err p = (None, closeWrite err p)"

definition pipeWriterClose :: "pipe \<Rightarrow> goError option \<times> pipe" where
  "pipeWriterClose p = pipeWriterCloseWithError None p"

text \<open>
  \<open>io.ReadAll\<close> on the read side: the bytes taken and the error that ended the
  stream (none for \<open>EOF\<close>). On a pipe that nobody has closed it does not return.
\<close>

definition pipeReadAll :: "pipe \<Rightarrow> (bytes \<times> goError option) option" where
  "pipeReadAll p =
     (if pipeDone p
      then Some (delivered p, (case readCloseError p of EOF \<Rightarrow> None | e \<Rightarrow> Some e))
      else None)"

section \<open>The client in main\<close>

datatype pipeEnd = PipeReader | PipeWriter

text \<open>
  \<open>http.NewRequest\<close> fails for an invalid method or a URL that does not parse; the
  two literals of line 118 are valid, so the call returns a request with an empty
  header map and no trailer map.
\<close>

definition NewRequest :: "string \<Rightarrow> string \<Rightarrow> 'b \<Rightarrow> 'b request" where
  "NewRequest method url b = \<lparr>Method = method, URL = url, Header = [], Body = b, Trailer = []\<rparr>"

text \<open>Lines 108 to 132, for a body content that \<open>main\<close> fixes to \<open>abcde\<close>.\<close>

definition clientRequest :: "string \<Rightarrow> pipeEnd request" where
  "clientRequest requestBodyContent =
     (let requestBodyBytes = requestBodyContent;
          requestBodyByteLength = len requestBodyBytes;
          req = NewRequest ''POST'' ''http://localhost:8080'' PipeReader;
          req1 = req\<lparr>Header := headerSet (Header req) ''Trailer'' trailerHeaderName\<rparr>;
          req2 = req1\<lparr>Trailer := []\<rparr>
      in req2\<lparr>Trailer := headerSet (Trailer req2) trailerHeaderName (Itoa requestBodyByteLength)\<rparr>)"

definition requestBodyContent :: string where
  "requestBodyContent = ''abcde''"

text \<open>Lines 139 to 155: the goroutine that writes the body into the pipe.\<close>

datatype producerEvent =
    LogStartWrite                \<comment> \<open>140\<close>
  | CallPipeWrite bytes          \<comment> \<open>142\<close>
  | LogPipeWriteError goError    \<comment> \<open>144\<close>
  | CallCloseWithError goError   \<comment> \<open>146\<close>
  | LogFinishedWrite             \<comment> \<open>149\<close>
  | CallPipeClose                \<comment> \<open>152\<close>
  | LogPipeCloseError goError    \<comment> \<open>153\<close>

definition producer :: "bytes \<Rightarrow> reader \<Rightarrow> pipe \<Rightarrow> producerEvent list \<times> pipe" where
  "producer requestBodyBytes rd pw =
     (let ((n, writeErr), p1) = pipeWrite requestBodyBytes rd pw
      in case writeErr of
           Some e \<Rightarrow>
             ([LogStartWrite, CallPipeWrite requestBodyBytes, LogPipeWriteError e,
               CallCloseWithError e],
              snd (pipeWriterCloseWithError (Some e) p1))
         | None \<Rightarrow>
             (case pipeWriterClose p1 of
                (Some err, p2) \<Rightarrow>
                  ([LogStartWrite, CallPipeWrite requestBodyBytes, LogFinishedWrite,
                    CallPipeClose, LogPipeCloseError err], p2)
              | (None, p2) \<Rightarrow>
                  ([LogStartWrite, CallPipeWrite requestBodyBytes, LogFinishedWrite,
                    CallPipeClose], p2)))"

section \<open>Vocabulary for the properties\<close>

text \<open>The response writer that net/http hands to a handler: nothing sent yet.\<close>

definition newResponseWriter :: responseWriter where
  "newResponseWriter = \<lparr>status = None, written = []\<rparr>"

text \<open>
  Three classes of events: those of the header phase (lines 29 to 40), those that
  touch the trailer map (lines 56 to 78), and among these the ones that come from
  parsing or comparing a trailer value (lines 63 to 73).
\<close>

fun headerPhase :: "event \<Rightarrow> bool" where
  "headerPhase LogReceived = True"
| "headerPhase (LogMethod _) = True"
| "headerPhase LogInitialHeaders = True"
| "headerPhase (PrintHeader _ _) = True"
| "headerPhase (LogAnnounced _) = True"
| "headerPhase _ = False"

fun usesTrailerValue :: "event \<Rightarrow> bool" where
  "usesTrailerValue (LogParseError _ _) = True"
| "usesTrailerValue (LogReported _) = True"
| "usesTrailerValue LogMatch = True"
| "usesTrailerValue LogMismatch = True"
| "usesTrailerValue _ = False"

fun trailerPhase :: "event \<Rightarrow> bool" where
  "trailerPhase LogTrailerHeaders = True"
| "trailerPhase LenTrailer = True"
| "trailerPhase (PrintTrailer _ _) = True"
| "trailerPhase LogNoTrailers = True"
| "trailerPhase e = usesTrailerValue e"

text \<open>
  A server request as net/http presents it to a handler: before the body has been
  read, \<open>r.Trailer\<close> holds the announced keys without values.
\<close>

definition incoming :: "header \<Rightarrow> string list \<Rightarrow> bytes \<Rightarrow> goError \<Rightarrow> header \<Rightarrow> body request" where
  "incoming hdr announced b e tr =
     \<lparr>Method = ''POST'', URL = ''/'', Header = hdr,
      Body = \<lparr>content = b, readErr = e, trailerAtEOF = tr\<rparr>,
      Trailer = map (\<lambda>k. (k, [])) announced\<rparr>"

section \<open>Auxiliary facts\<close>

subsection \<open>Decimal conversion\<close>

lemma digit_cases:
  assumes "d < (10::nat)"
  obtains "d = 0" | "d = 1" | "d = 2" | "d = 3" | "d = 4" | "d = 5" | "d = 6" | "d = 7" | "d = 8" | "d = 9"
proof -
  have "d \<in> {0, 1, 2, 3, 4, 5, 6, 7, 8, 9}" using assms by auto
  then show thesis using that by blast
qed

lemma isDigit_digits: "d < 10 \<Longrightarrow> isDigit (digits ! d)"
  by (erule digit_cases) (simp_all add: isDigit_def digits_def)

lemma digitVal_digits: "d < 10 \<Longrightarrow> digitVal (digits ! d) = d"
  by (erule digit_cases) (simp_all add: digitVal_def digits_def)

lemma parseUintLoop_snoc:
  "parseUintLoop n (cs @ [c]) =
     (case parseUintLoop n cs of Inl e \<Rightarrow> Inl e | Inr m \<Rightarrow> parseUintLoop m [c])"
  by (induction cs arbitrary: n) simp_all

lemma parseUintLoop_formatBits:
  "m \<le> maxUint64 \<Longrightarrow> parseUintLoop 0 (formatBits m) = Inr m"
proof (induction m rule: formatBits.induct)
  case (1 n)
  show ?case
  proof (cases "n < 10")
    case True
    then show ?thesis
      by (simp add: formatBits.simps [of n] isDigit_digits digitVal_digits maxUint64_def)
  next
    case False
    have le: "n div 10 \<le> maxUint64" using "1.prems" by simp
    have ih: "parseUintLoop 0 (formatBits (n div 10)) = Inr (n div 10)"
      using "1.IH" [OF False le] .
    have lt: "\<not> n div 10 \<ge> maxUint64 div 10 + 1"
      using "1.prems" by (simp add: div_le_mono not_le less_Suc_eq_le)
    have eq: "n div 10 * 10 + n mod 10 = n" by simp
    have "formatBits n = formatBits (n div 10) @ [digits ! (n mod 10)]"
      using False by (simp add: formatBits.simps [of n])
    then show ?thesis
      using ih lt "1.prems" eq
      by (simp add: parseUintLoop_snoc isDigit_digits digitVal_digits)
  qed
qed

lemma formatBits_nonempty: "formatBits n \<noteq> []"
  by (simp add: formatBits.simps [of n])

lemma hd_formatBits_digit: "isDigit (hd (formatBits n))"
proof (induction n rule: formatBits.induct)
  case (1 n)
  show ?case
  proof (cases "n < 10")
    case True
    then show ?thesis by (simp add: formatBits.simps [of n] isDigit_digits)
  next
    case False
    then have "formatBits n = formatBits (n div 10) @ [digits ! (n mod 10)]"
      by (simp add: formatBits.simps [of n])
    then show ?thesis using "1.IH" [OF False] formatBits_nonempty [of "n div 10"]
      by simp
  qed
qed

lemma Atoi_Itoa: "0 \<le> i \<Longrightarrow> i \<le> maxInt \<Longrightarrow> Atoi (Itoa i) = Inr i"
proof -
  assume a: "0 \<le> i" "i \<le> maxInt"
  let ?s = "formatBits (nat i)"
  have ne: "?s \<noteq> []" by (rule formatBits_nonempty)
  have dg: "isDigit (hd ?s)" by (rule hd_formatBits_digit)
  then have ns: "hd ?s \<noteq> CHR ''-''" "hd ?s \<noteq> CHR ''+''"
    by (auto simp: isDigit_def)
  have b: "nat i \<le> maxUint64" using a by (simp add: maxInt_def intSize_def maxUint64_def nat_le_iff)
  have p: "ParseUint ?s = Inr (nat i)"
    using ne parseUintLoop_formatBits [OF b] by (simp add: ParseUint_def)
  have r: "\<not> nat i \<ge> 2 ^ (intSize - 1)" using a by (simp add: maxInt_def intSize_def nat_le_iff not_le)
  show ?thesis using a ne ns p r
    by (simp add: Atoi_def ParseInt_def Itoa_def Let_def)
qed

lemmas atoi_eval = Atoi_def ParseInt_def ParseUint_def isDigit_def digitVal_def maxUint64_def intSize_def Let_def

subsection \<open>The handler in closed form\<close>

lemma len_pos_iff: "len xs > 0 \<longleftrightarrow> xs \<noteq> []"
  by (simp add: len_def)

lemma trailerEntry_eq:
  "trailerEntry n name values =
     Inr (if name = trailerHeaderName
          then (case values of
                  [] \<Rightarrow> [PrintTrailer name values]
                | v # _ \<Rightarrow>
                    (case Atoi v of
                       Inl cerr \<Rightarrow> [PrintTrailer name values, LogParseError v cerr]
                     | Inr d \<Rightarrow> [PrintTrailer name values, LogReported d, verify d n]))
          else [PrintTrailer name values])"
  by (auto simp add: trailerEntry_def index_def len_def split: list.splits sum.splits)

lemma rangeTrailer_eq:
  "rangeTrailer n T = Inr (concat (map (\<lambda>(name, values). projr (trailerEntry n name values)) T))"
proof (induction T)
  case Nil
  show ?case by simp
next
  case (Cons a T)
  obtain name vals where a: "a = (name, vals)" by (cases a)
  obtain es where es: "trailerEntry n name vals = Inr es"
    using trailerEntry_eq by blast
  show ?case using Cons.IH by (simp add: a es)
qed

lemma serverHandler_EOF:
  assumes "readErr (Body r) = EOF"
  shows "serverHandler w r writeErr =
     Inr \<lparr>events = [LogReceived, LogMethod (Method r), LogInitialHeaders]
               @ map (\<lambda>(name, values). PrintHeader name values) (Header r)
               @ [LogAnnounced (headerGet (Header r) ''Trailer''), CallReadAll,
                  LogReadBody (len (content (Body r))) (content (Body r)),
                  LogTrailerHeaders, LenTrailer]
               @ (if trailerAtEOF (Body r) = [] then [LogNoTrailers]
                  else concat (map (\<lambda>(name, values).
                         projr (trailerEntry (len (content (Body r))) name values))
                         (trailerAtEOF (Body r))))
               @ [CallWriteHeader StatusOK, CallWrite confirmation,
                  (case writeErr of Some e \<Rightarrow> LogWriteError e | None \<Rightarrow> LogSent),
                  CallBodyClose],
          writer = Write confirmation (WriteHeader StatusOK w),
          request = r\<lparr>Trailer := trailerAtEOF (Body r)\<rparr>\<rparr>"
  using assms
  by (simp add: serverHandler_def ReadAll_def len_pos_iff rangeTrailer_eq)

lemma serverHandler_failed:
  assumes "readErr (Body r) \<noteq> EOF"
  shows "serverHandler w r writeErr =
     Inr \<lparr>events = [LogReceived, LogMethod (Method r), LogInitialHeaders]
               @ map (\<lambda>(name, values). PrintHeader name values) (Header r)
               @ [LogAnnounced (headerGet (Header r) ''Trailer''), CallReadAll,
                  LogReadError (readErr (Body r)),
                  CallHttpError ''Error reading request body'' StatusInternalServerError,
                  CallBodyClose],
          writer = httpError w ''Error reading request body'' StatusInternalServerError,
          request = r\<rparr>"
  using assms
  by (simp add: serverHandler_def ReadAll_def)

lemma entry_other:
  "name \<noteq> trailerHeaderName \<Longrightarrow> projr (trailerEntry n name vals) = [PrintTrailer name vals]"
  by (simp add: trailerEntry_eq)

lemma entry_empty: "projr (trailerEntry n name []) = [PrintTrailer name []]"
  by (simp add: trailerEntry_eq)

lemma entry_value:
  "projr (trailerEntry n trailerHeaderName (v # vs)) =
     PrintTrailer trailerHeaderName (v # vs) #
       (case Atoi v of Inl cerr \<Rightarrow> [LogParseError v cerr]
        | Inr d \<Rightarrow> [LogReported d, verify d n])"
  by (simp add: trailerEntry_eq split: sum.splits)

lemma usesTrailerValue_verify: "usesTrailerValue (verify d n)"
  by (simp add: verify_def)

lemma filter_entry_other:
  "name \<noteq> trailerHeaderName \<Longrightarrow> filter usesTrailerValue (projr (trailerEntry n name vals)) = []"
  by (simp add: entry_other)

lemma filter_entries_none:
  "trailerHeaderName \<notin> fst ` set T \<Longrightarrow>
   filter usesTrailerValue
     (concat (map (\<lambda>(name, values). projr (trailerEntry n name values)) T)) = []"
  by (induction T) (auto simp: filter_entry_other)

lemma filter_entries_one:
  "distinct (map fst T) \<Longrightarrow> (trailerHeaderName, vals) \<in> set T \<Longrightarrow>
   filter usesTrailerValue
     (concat (map (\<lambda>(name, values). projr (trailerEntry n name values)) T)) =
   filter usesTrailerValue (projr (trailerEntry n trailerHeaderName vals))"
proof (induction T)
  case Nil
  then show ?case by simp
next
  case (Cons a T)
  obtain name vs where a: "a = (name, vs)" by (cases a)
  show ?case
  proof (cases "name = trailerHeaderName")
    case True
    from Cons.prems a True have notin: "trailerHeaderName \<notin> fst ` set T" by simp
    with Cons.prems(2) a True have "vs = vals" by force
    then show ?thesis using a True filter_entries_none [OF notin] by simp
  next
    case False
    with Cons.prems a have "distinct (map fst T)" "(trailerHeaderName, vals) \<in> set T" by auto
    then show ?thesis using Cons.IH a False by (simp add: filter_entry_other)
  qed
qed

lemma printed_entries:
  "PrintTrailer name vals \<in> set (concat (map (\<lambda>(name, values). projr (trailerEntry n name values)) T))
   \<longleftrightarrow> (name, vals) \<in> set T"
proof -
  have "\<And>a b. PrintTrailer name vals \<in> set (projr (trailerEntry n a b)) \<longleftrightarrow> (a, b) = (name, vals)"
    by (auto simp: trailerEntry_eq verify_def split: list.splits sum.splits)
  then show ?thesis by (induction T) auto
qed

lemma trailerPhase_entries:
  "list_all trailerPhase (concat (map (\<lambda>(name, values). projr (trailerEntry n name values)) T))"
proof -
  have "\<And>a b. list_all trailerPhase (projr (trailerEntry n a b))"
    by (auto simp: trailerEntry_eq verify_def split: list.splits sum.splits if_splits)
  then show ?thesis by (induction T) auto
qed

lemma canonical_trailerHeaderName: "CanonicalMIMEHeaderKey trailerHeaderName = trailerHeaderName"
  by (simp add: CanonicalMIMEHeaderKey_def trailerHeaderName_def validHeaderFieldByte_def
      isDigit_def isLower_def isUpper_def Let_def)

lemma canonical_Trailer: "CanonicalMIMEHeaderKey ''Trailer'' = ''Trailer''"
  by (simp add: CanonicalMIMEHeaderKey_def validHeaderFieldByte_def
      isDigit_def isLower_def isUpper_def Let_def)

lemma clientRequest_eq:
  "clientRequest c =
     \<lparr>Method = ''POST'', URL = ''http://localhost:8080'',
      Header = [(''Trailer'', [trailerHeaderName])], Body = PipeReader,
      Trailer = [(trailerHeaderName, [Itoa (len c)])]\<rparr>"
  by (simp add: clientRequest_def NewRequest_def headerSet_def Let_def
      canonical_trailerHeaderName canonical_Trailer)

lemma producer_Drains:
  "producer P Drains Pipe =
     ([LogStartWrite, CallPipeWrite P, LogFinishedWrite, CallPipeClose],
      \<lparr>rerr = None, werr = Some EOF, delivered = P\<rparr>)"
  by (simp add: producer_def pipeWrite_def Pipe_def pipeDone_def pipeWriterClose_def
      pipeWriterCloseWithError_def closeWrite_def storeOnce_def)

lemma producer_Closes:
  "k < length P \<or> P = [] \<Longrightarrow>
   producer P (ClosesAfter k) Pipe =
     ([LogStartWrite, CallPipeWrite P, LogPipeWriteError ErrClosedPipe,
       CallCloseWithError ErrClosedPipe],
      \<lparr>rerr = Some ErrClosedPipe, werr = Some ErrClosedPipe, delivered = take k P\<rparr>)"
  by (auto simp add: producer_def pipeWrite_def Pipe_def pipeDone_def
      pipeWriterCloseWithError_def closeWrite_def closeRead_def storeOnce_def writeCloseError_def Let_def)

lemma header_events_no_uses:
  "filter usesTrailerValue (map (\<lambda>(name, values). PrintHeader name values) H) = []"
  by (induction H) auto

lemma write_event_no_uses:
  "\<not> usesTrailerValue (case writeErr of Some e \<Rightarrow> LogWriteError e | None \<Rightarrow> LogSent)"
  by (simp split: option.splits)

lemma serverHandler_EOF_uses:
  assumes "readErr (Body r) = EOF"
  shows "\<exists>h. serverHandler w r writeErr = Inr h
         \<and> filter usesTrailerValue (events h) =
             filter usesTrailerValue
               (concat (map (\<lambda>(name, values). projr (trailerEntry (len (content (Body r))) name values))
                  (trailerAtEOF (Body r))))
         \<and> writer h = Write confirmation (WriteHeader StatusOK w)
         \<and> request h = r\<lparr>Trailer := trailerAtEOF (Body r)\<rparr>"
  by (simp add: serverHandler_EOF [OF assms] header_events_no_uses write_event_no_uses)

lemma serverHandler_EOF_events:
  assumes "readErr (Body r) = EOF"
  shows "\<exists>h. serverHandler w r writeErr = Inr h
     \<and> events h = [LogReceived, LogMethod (Method r), LogInitialHeaders]
               @ map (\<lambda>(name, values). PrintHeader name values) (Header r)
               @ [LogAnnounced (headerGet (Header r) ''Trailer''), CallReadAll,
                  LogReadBody (len (content (Body r))) (content (Body r)),
                  LogTrailerHeaders, LenTrailer]
               @ (if trailerAtEOF (Body r) = [] then [LogNoTrailers]
                  else concat (map (\<lambda>(name, values).
                         projr (trailerEntry (len (content (Body r))) name values))
                         (trailerAtEOF (Body r))))
               @ [CallWriteHeader StatusOK, CallWrite confirmation,
                  (case writeErr of Some e \<Rightarrow> LogWriteError e | None \<Rightarrow> LogSent),
                  CallBodyClose]
     \<and> writer h = Write confirmation (WriteHeader StatusOK w)
     \<and> request h = r\<lparr>Trailer := trailerAtEOF (Body r)\<rparr>"
  unfolding serverHandler_EOF [OF assms] by simp

lemma header_events_no_trailerPhase:
  "list_all (\<lambda>e. \<not> trailerPhase e) (map (\<lambda>(name, values). PrintHeader name values) H)"
  by (induction H) auto

lemma header_events_headerPhase:
  "list_all headerPhase (map (\<lambda>(name, values). PrintHeader name values) H)"
  by (induction H) auto

lemma trailerPhase_not_headerPhase: "trailerPhase e \<Longrightarrow> \<not> headerPhase e \<and> e \<noteq> CallReadAll"
  by (cases e) auto

lemma entries_after_read:
  "list_all (\<lambda>e. \<not> headerPhase e \<and> e \<noteq> CallReadAll)
     (concat (map (\<lambda>(name, values). projr (trailerEntry n name values)) T))"
  using trailerPhase_entries [of n T] trailerPhase_not_headerPhase
  by (auto simp: list_all_iff)

lemma filter_entries_named:
  "filter usesTrailerValue
     (concat (map (\<lambda>(name, values). projr (trailerEntry n name values)) T)) =
   filter usesTrailerValue
     (concat (map (\<lambda>(name, values). projr (trailerEntry n name values))
        (filter (\<lambda>(name, values). name = trailerHeaderName) T)))"
  by (induction T) (auto simp: filter_entry_other)

lemma serverHandler_EOF_printed:
  assumes "readErr (Body r) = EOF"
  shows "\<exists>h. serverHandler w r writeErr = Inr h
         \<and> (\<forall>name vals. PrintTrailer name vals \<in> set (events h)
               \<longleftrightarrow> (name, vals) \<in> set (trailerAtEOF (Body r)))
         \<and> filter usesTrailerValue (events h) =
             filter usesTrailerValue
               (concat (map (\<lambda>(name, values). projr (trailerEntry (len (content (Body r))) name values))
                  (trailerAtEOF (Body r))))"
proof -
  let ?n = "len (content (Body r))"
  let ?T = "trailerAtEOF (Body r)"
  let ?ent = "concat (map (\<lambda>(name, values). projr (trailerEntry ?n name values)) ?T)"
  obtain h where h: "serverHandler w r writeErr = Inr h"
    and ev: "events h = [LogReceived, LogMethod (Method r), LogInitialHeaders]
               @ map (\<lambda>(name, values). PrintHeader name values) (Header r)
               @ [LogAnnounced (headerGet (Header r) ''Trailer''), CallReadAll,
                  LogReadBody ?n (content (Body r)), LogTrailerHeaders, LenTrailer]
               @ (if ?T = [] then [LogNoTrailers] else ?ent)
               @ [CallWriteHeader StatusOK, CallWrite confirmation,
                  (case writeErr of Some e \<Rightarrow> LogWriteError e | None \<Rightarrow> LogSent),
                  CallBodyClose]"
    using serverHandler_EOF_events [OF assms, of w writeErr] by blast
  have f: "filter usesTrailerValue (events h) = filter usesTrailerValue ?ent"
    using serverHandler_EOF_uses [OF assms, of w writeErr] h by auto
  have p: "\<forall>name vals. PrintTrailer name vals \<in> set (events h) \<longleftrightarrow> (name, vals) \<in> set ?T"
    unfolding ev using printed_entries [of _ _ ?n ?T]
    by (auto split: option.splits)
  from h p f show ?thesis by blast
qed

lemma serverHandler_total: "\<exists>h. serverHandler w r writeErr = Inr h"
proof (cases "readErr (Body r) = EOF")
  case True
  then show ?thesis by (simp add: serverHandler_EOF)
next
  case False
  then show ?thesis by (simp add: serverHandler_failed)
qed

lemma parseUintLoop_digits: "parseUintLoop n s = Inr m \<Longrightarrow> list_all isDigit s"
  by (induction s arbitrary: n) (auto split: if_splits)

lemma Atoi_Inr_shape:
  assumes "Atoi s = Inr i"
  shows "s \<noteq> [] \<and>
         (let ds = (if hd s = CHR ''+'' \<or> hd s = CHR ''-'' then tl s else s)
          in ds \<noteq> [] \<and> list_all isDigit ds) \<and> minInt \<le> i \<and> i \<le> maxInt"
proof -
  from assms have ne: "s \<noteq> []" by (auto simp: Atoi_def ParseInt_def)
  let ?ds = "if hd s = CHR ''+'' \<or> hd s = CHR ''-'' then tl s else s"
  from assms ne obtain un where un: "ParseUint ?ds = Inr un"
    and i: "i = (if hd s = CHR ''-'' then - int un else int un)"
    and r: "\<not> (hd s \<noteq> CHR ''-'' \<and> un \<ge> 2 ^ (intSize - 1))"
           "\<not> (hd s = CHR ''-'' \<and> un > 2 ^ (intSize - 1))"
    by (auto simp: Atoi_def ParseInt_def Let_def split: sum.splits numError.splits if_splits)
  from un have d: "?ds \<noteq> []" "list_all isDigit ?ds"
    by (auto simp: ParseUint_def dest: parseUintLoop_digits split: if_splits)
  have "minInt \<le> i \<and> i \<le> maxInt"
    using i r by (auto simp: minInt_def maxInt_def intSize_def not_le not_less)
  with ne d show ?thesis by (simp add: Let_def)
qed

lemma formatBits_digits: "list_all isDigit (formatBits n)"
proof (induction n rule: formatBits.induct)
  case (1 n)
  show ?case
  proof (cases "n < 10")
    case True
    then show ?thesis by (simp add: formatBits.simps [of n] isDigit_digits)
  next
    case False
    then show ?thesis using "1.IH" [OF False]
      by (simp add: formatBits.simps [of n] isDigit_digits)
  qed
qed

section \<open>The claims\<close>

text \<open>
  C1 (round-trip integrity). For every payload \<open>P\<close>, the empty one included: if the
  client sets the trailer value to the decimal text of \<open>len(P)\<close>, the producer streams
  exactly the bytes of \<open>P\<close> through the pipe, and the server request carries that body
  and that trailer map, then the handler does not panic, it reads \<open>len(P)\<close> bytes of
  body, and the only events that come from the trailer value are the report of
  \<open>len(P)\<close> followed by the match verdict. The first hypothesis holds for every Go
  slice, whose length is an \<open>int\<close>.
\<close>

theorem round_trip_integrity:
  assumes "len P \<le> maxInt"
    and "pipeReadAll (snd (producer P Drains Pipe)) = Some (content (Body r), None)"
    and "readErr (Body r) = EOF"
    and "trailerAtEOF (Body r) = Trailer (clientRequest P)"
  shows "\<exists>h. serverHandler w r writeErr = Inr h
           \<and> LogReadBody (len P) P \<in> set (events h)
           \<and> filter usesTrailerValue (events h) = [LogReported (len P), LogMatch]"
proof -
  have c: "content (Body r) = P"
    using assms(2) by (simp add: producer_Drains pipeReadAll_def pipeDone_def)
  have t: "trailerAtEOF (Body r) = [(trailerHeaderName, [Itoa (len P)])]"
    using assms(4) by (simp add: clientRequest_eq)
  have a: "Atoi (Itoa (len P)) = Inr (len P)"
    using assms(1) by (intro Atoi_Itoa) (simp_all add: len_def)
  show ?thesis
    by (simp add: serverHandler_EOF [OF assms(3)] c t entry_value a verify_def
        header_events_no_uses write_event_no_uses)
qed

text \<open>C1 at the body \<open>abcde\<close> of \<open>main\<close> and at the empty body.\<close>

theorem round_trip_integrity_witness:
  "len ''abcde'' \<le> maxInt
   \<and> pipeReadAll (snd (producer ''abcde'' Drains Pipe)) = Some (''abcde'', None)
   \<and> Trailer (clientRequest ''abcde'') = [(''X-Body-Byte-Length'', [''5''])]
   \<and> (\<exists>h. serverHandler newResponseWriter
              (incoming [(''Trailer'', [''X-Body-Byte-Length''])] [''X-Body-Byte-Length'']
                 ''abcde'' EOF [(''X-Body-Byte-Length'', [''5''])]) None = Inr h
           \<and> LogReadBody 5 ''abcde'' \<in> set (events h)
           \<and> filter usesTrailerValue (events h) = [LogReported 5, LogMatch])
   \<and> pipeReadAll (snd (producer [] Drains Pipe)) = Some ([], None)
   \<and> Trailer (clientRequest []) = [(''X-Body-Byte-Length'', [''0''])]
   \<and> (\<exists>h. serverHandler newResponseWriter
              (incoming [(''Trailer'', [''X-Body-Byte-Length''])] [''X-Body-Byte-Length'']
                 [] EOF [(''X-Body-Byte-Length'', [''0''])]) None = Inr h
           \<and> LogReadBody 0 [] \<in> set (events h)
           \<and> filter usesTrailerValue (events h) = [LogReported 0, LogMatch])"
proof -
  let ?r = "incoming [(''Trailer'', [''X-Body-Byte-Length''])] [''X-Body-Byte-Length'']
                 ''abcde'' EOF [(''X-Body-Byte-Length'', [''5''])]"
  let ?q = "incoming [(''Trailer'', [''X-Body-Byte-Length''])] [''X-Body-Byte-Length'']
                 [] EOF [(''X-Body-Byte-Length'', [''0''])]"
  have r1: "len ''abcde'' \<le> maxInt" and q1: "len ([] :: string) \<le> maxInt"
    by (simp_all add: len_def maxInt_def intSize_def)
  have r2: "pipeReadAll (snd (producer ''abcde'' Drains Pipe)) = Some (content (Body ?r), None)"
    and q2: "pipeReadAll (snd (producer [] Drains Pipe)) = Some (content (Body ?q), None)"
    by (simp_all add: producer_Drains pipeReadAll_def pipeDone_def readCloseError_def incoming_def)
  have r3: "readErr (Body ?r) = EOF" and q3: "readErr (Body ?q) = EOF"
    by (simp_all add: incoming_def)
  have r5: "Itoa (len ''abcde'') = ''5''"
    by (simp add: len_def Itoa_def formatBits.simps [of 5] digits_def)
  have q5: "Itoa (len ([] :: string)) = ''0''"
    by (simp add: len_def Itoa_def formatBits.simps [of 0] digits_def)
  have r4: "trailerAtEOF (Body ?r) = Trailer (clientRequest ''abcde'')"
    by (simp add: incoming_def clientRequest_eq r5 trailerHeaderName_def)
  have q4: "trailerAtEOF (Body ?q) = Trailer (clientRequest [])"
    by (simp add: incoming_def clientRequest_eq q5 trailerHeaderName_def)
  show ?thesis
    using round_trip_integrity [OF r1 r2 r3 r4, of newResponseWriter None]
      round_trip_integrity [OF q1 q2 q3 q4, of newResponseWriter None] r1 r2 r4 q2 q4
    by (simp add: incoming_def len_def)
qed

text \<open>
  C2 (the verifier). The comparison is a function of the declared and the observed
  length alone: its verdict is the match exactly when the two are equal and the mismatch
  otherwise. In the handler, for a request whose body has been read and whose trailer
  map holds the expected name with a first value that parses to \<open>declared\<close>, the
  events drawn from the trailer value are the report of \<open>declared\<close> and that one
  verdict; the response writer and the request end in the same state whatever the
  verdict is. This holds for all integers, the non-negative ones included.
\<close>

theorem verifier_pure_comparison:
  assumes "readErr (Body r) = EOF"
    and "distinct (map fst (trailerAtEOF (Body r)))"
    and "(trailerHeaderName, v # vs) \<in> set (trailerAtEOF (Body r))"
    and "Atoi v = Inr declared"
  shows "(verify declared observed = LogMatch \<longleftrightarrow> declared = observed)
       \<and> (verify declared observed = LogMismatch \<longleftrightarrow> declared \<noteq> observed)
       \<and> (\<exists>h. serverHandler w r writeErr = Inr h
              \<and> filter usesTrailerValue (events h) =
                  [LogReported declared, verify declared (len (content (Body r)))]
              \<and> (LogMatch \<in> set (events h) \<longleftrightarrow> declared = len (content (Body r)))
              \<and> (LogMismatch \<in> set (events h) \<longleftrightarrow> declared \<noteq> len (content (Body r)))
              \<and> writer h = Write confirmation (WriteHeader StatusOK w)
              \<and> request h = r\<lparr>Trailer := trailerAtEOF (Body r)\<rparr>)"
proof -
  let ?n = "len (content (Body r))"
  obtain h where h: "serverHandler w r writeErr = Inr h"
    and f: "filter usesTrailerValue (events h) =
             filter usesTrailerValue
               (concat (map (\<lambda>(name, values). projr (trailerEntry ?n name values))
                  (trailerAtEOF (Body r))))"
    and wr: "writer h = Write confirmation (WriteHeader StatusOK w)"
    and rq: "request h = r\<lparr>Trailer := trailerAtEOF (Body r)\<rparr>"
    using serverHandler_EOF_uses [OF assms(1)] by blast
  have g: "filter usesTrailerValue (events h) = [LogReported declared, verify declared ?n]"
    by (simp add: f filter_entries_one [OF assms(2,3)] entry_value assms(4) usesTrailerValue_verify)
  have "LogMatch \<in> set (events h) \<longleftrightarrow> LogMatch \<in> set (filter usesTrailerValue (events h))"
    by simp
  also have "\<dots> \<longleftrightarrow> declared = ?n"
    unfolding g by (simp add: verify_def)
  finally have a: "LogMatch \<in> set (events h) \<longleftrightarrow> declared = ?n" .
  have "LogMismatch \<in> set (events h) \<longleftrightarrow> LogMismatch \<in> set (filter usesTrailerValue (events h))"
    by simp
  also have "\<dots> \<longleftrightarrow> declared \<noteq> ?n"
    unfolding g by (simp add: verify_def)
  finally have b: "LogMismatch \<in> set (events h) \<longleftrightarrow> declared \<noteq> ?n" .
  from a b show ?thesis using h g wr rq by (simp add: verify_def)
qed

text \<open>C2 at a declared length of 7 for a body of 5 bytes.\<close>

theorem verifier_pure_comparison_witness:
  "readErr (Body (incoming [] [''X-Body-Byte-Length''] ''abcde'' EOF
      [(''X-Body-Byte-Length'', [''7''])])) = EOF
   \<and> Atoi ''7'' = Inr 7
   \<and> verify 7 5 = LogMismatch
   \<and> (\<exists>h. serverHandler newResponseWriter
              (incoming [] [''X-Body-Byte-Length''] ''abcde'' EOF
                 [(''X-Body-Byte-Length'', [''7''])]) None = Inr h
           \<and> filter usesTrailerValue (events h) = [LogReported 7, LogMismatch]
           \<and> LogMatch \<notin> set (events h) \<and> LogMismatch \<in> set (events h)
           \<and> writer h = \<lparr>status = Some 200, written = confirmation\<rparr>)"
proof -
  let ?r = "incoming [] [''X-Body-Byte-Length''] ''abcde'' EOF [(''X-Body-Byte-Length'', [''7''])]"
  have 1: "readErr (Body ?r) = EOF" by (simp add: incoming_def)
  have 2: "distinct (map fst (trailerAtEOF (Body ?r)))" by (simp add: incoming_def)
  have 3: "(trailerHeaderName, ''7'' # []) \<in> set (trailerAtEOF (Body ?r))"
    by (simp add: incoming_def trailerHeaderName_def)
  have 4: "Atoi ''7'' = Inr 7" by (simp add: atoi_eval)
  show ?thesis
    using verifier_pure_comparison [OF 1 2 3 4, of 5 newResponseWriter None] 1 4
    by (auto simp add: incoming_def len_def verify_def Write_def WriteHeader_def
        newResponseWriter_def StatusOK_def)
qed

text \<open>
  C3, amended (unparseable trailer value). The handler parses the first value of the
  expected trailer field with \<open>strconv.Atoi\<close>, which reads an optional sign before
  the decimal digits. For a request whose body has been read, the handler does not
  panic and answers with status 200 and the fixed confirmation in either case. When
  the parse fails, the only event drawn from the trailer value is the log line of the
  parse error: no report and no verdict. When it succeeds, for a negative number as
  well, the value is reported and compared with the body length.
\<close>

theorem unparseable_trailer_value:
  assumes "readErr (Body r) = EOF"
    and "distinct (map fst (trailerAtEOF (Body r)))"
    and "(trailerHeaderName, v # vs) \<in> set (trailerAtEOF (Body r))"
  shows "\<exists>h. serverHandler newResponseWriter r writeErr = Inr h
           \<and> filter usesTrailerValue (events h) =
               (case Atoi v of
                  Inl cerr \<Rightarrow> [LogParseError v cerr]
                | Inr d \<Rightarrow> [LogReported d, verify d (len (content (Body r)))])
           \<and> status (writer h) = Some 200
           \<and> written (writer h) = confirmation"
proof -
  obtain h where h: "serverHandler newResponseWriter r writeErr = Inr h"
    and f: "filter usesTrailerValue (events h) =
             filter usesTrailerValue
               (concat (map (\<lambda>(name, values).
                  projr (trailerEntry (len (content (Body r))) name values))
                  (trailerAtEOF (Body r))))"
    and wr: "writer h = Write confirmation (WriteHeader StatusOK newResponseWriter)"
    using serverHandler_EOF_uses [OF assms(1)] by blast
  have "filter usesTrailerValue (events h) =
          (case Atoi v of
             Inl cerr \<Rightarrow> [LogParseError v cerr]
           | Inr d \<Rightarrow> [LogReported d, verify d (len (content (Body r)))])"
    by (simp add: f filter_entries_one [OF assms(2,3)] entry_value usesTrailerValue_verify
        split: sum.splits)
  with h wr show ?thesis
    by (simp add: Write_def WriteHeader_def newResponseWriter_def StatusOK_def)
qed

text \<open>C3, amended, at the non-numeric value \<open>abc\<close>.\<close>

theorem unparseable_trailer_value_witness:
  "readErr (Body (incoming [] [''X-Body-Byte-Length''] ''abcde'' EOF
      [(''X-Body-Byte-Length'', [''abc''])])) = EOF
   \<and> Atoi ''abc'' = Inl ErrSyntax
   \<and> (\<exists>h. serverHandler newResponseWriter
              (incoming [] [''X-Body-Byte-Length''] ''abcde'' EOF
                 [(''X-Body-Byte-Length'', [''abc''])]) None = Inr h
           \<and> filter usesTrailerValue (events h) = [LogParseError ''abc'' ErrSyntax]
           \<and> status (writer h) = Some 200
           \<and> written (writer h) = confirmation)"
proof -
  let ?r = "incoming [] [''X-Body-Byte-Length''] ''abcde'' EOF [(''X-Body-Byte-Length'', [''abc''])]"
  have 1: "readErr (Body ?r) = EOF" by (simp add: incoming_def)
  have 2: "distinct (map fst (trailerAtEOF (Body ?r)))" by (simp add: incoming_def)
  have 3: "(trailerHeaderName, ''abc'' # []) \<in> set (trailerAtEOF (Body ?r))"
    by (simp add: incoming_def trailerHeaderName_def)
  have 4: "Atoi ''abc'' = Inl ErrSyntax" by (simp add: atoi_eval)
  show ?thesis
    using unparseable_trailer_value [OF 1 2 3, of None] 1 4 by simp
qed

text \<open>
  C3 as stated fails at the value \<open>-5\<close>: it is not a non-negative base-10 integer,
  yet \<open>Atoi\<close> parses it and the handler runs the comparison, which reports a
  mismatch for the 5-byte body.
\<close>

theorem negative_value_is_verified:
  "\<not> list_all isDigit ''-5''
   \<and> Atoi ''-5'' = Inr (- 5)
   \<and> serverHandler newResponseWriter
       (incoming [(''Trailer'', [''X-Body-Byte-Length''])] [''X-Body-Byte-Length''] ''abcde'' EOF
          [(''X-Body-Byte-Length'', [''-5''])]) None =
     Inr \<lparr>events =
            [LogReceived, LogMethod ''POST'', LogInitialHeaders,
             PrintHeader ''Trailer'' [''X-Body-Byte-Length''],
             LogAnnounced ''X-Body-Byte-Length'', CallReadAll, LogReadBody 5 ''abcde'',
             LogTrailerHeaders, LenTrailer,
             PrintTrailer ''X-Body-Byte-Length'' [''-5''], LogReported (- 5), LogMismatch,
             CallWriteHeader 200, CallWrite confirmation, LogSent, CallBodyClose],
          writer = \<lparr>status = Some 200, written = confirmation\<rparr>,
          request =
            (incoming [(''Trailer'', [''X-Body-Byte-Length''])] [''X-Body-Byte-Length'']
               ''abcde'' EOF [(''X-Body-Byte-Length'', [''-5''])])
              \<lparr>Trailer := [(''X-Body-Byte-Length'', [''-5''])]\<rparr>\<rparr>"
proof -
  have a: "Atoi ''-5'' = Inr (- 5)" by (simp add: atoi_eval)
  have b: "\<not> list_all isDigit ''-5''" by (simp add: isDigit_def)
  have c: "trailerEntry 5 ''X-Body-Byte-Length'' [''-5''] =
             Inr [PrintTrailer ''X-Body-Byte-Length'' [''-5''], LogReported (- 5), LogMismatch]"
    by (simp add: trailerEntry_def trailerHeaderName_def len_def index_def a verify_def)
  have d: "headerGet [(''Trailer'', [''X-Body-Byte-Length''])] ''Trailer'' = ''X-Body-Byte-Length''"
    by (simp add: headerGet_def canonical_Trailer)
  show ?thesis
    apply (intro conjI)
      apply (rule b)
     apply (rule a)
    apply (simp add: serverHandler_def ReadAll_def incoming_def len_def c d
        Write_def WriteHeader_def newResponseWriter_def StatusOK_def)
    done
qed

text \<open>
  C4, amended (name binding). The handler recognises a trailer field by comparing its
  name with the constant \<open>trailerHeaderName\<close>, the name that the client of this
  program announces. For a request whose body has been read: every entry of the
  received trailer map is printed; if no entry has that name, no event is drawn from
  a trailer value; removing all entries with other names from the map leaves the
  events drawn from trailer values unchanged; and so does replacing the request's
  header map, the announce header included.
\<close>

theorem name_binding:
  assumes "readErr (Body r) = EOF"
  shows "\<exists>h. serverHandler w r writeErr = Inr h
           \<and> (\<forall>name vals. PrintTrailer name vals \<in> set (events h)
                 \<longleftrightarrow> (name, vals) \<in> set (trailerAtEOF (Body r)))
           \<and> (trailerHeaderName \<notin> fst ` set (trailerAtEOF (Body r))
                 \<longrightarrow> filter usesTrailerValue (events h) = [])
           \<and> (\<exists>h'. serverHandler w
                       (r\<lparr>Body := (Body r)\<lparr>trailerAtEOF :=
                            filter (\<lambda>(name, values). name = trailerHeaderName)
                              (trailerAtEOF (Body r))\<rparr>\<rparr>) writeErr = Inr h'
                  \<and> filter usesTrailerValue (events h') = filter usesTrailerValue (events h))
           \<and> (\<forall>hdr. \<exists>h'. serverHandler w (r\<lparr>Header := hdr\<rparr>) writeErr = Inr h'
                  \<and> filter usesTrailerValue (events h') = filter usesTrailerValue (events h))"
proof -
  let ?n = "len (content (Body r))"
  let ?T = "trailerAtEOF (Body r)"
  let ?ent = "\<lambda>T. concat (map (\<lambda>(name, values). projr (trailerEntry ?n name values)) T)"
  obtain h where h: "serverHandler w r writeErr = Inr h"
    and p: "\<forall>name vals. PrintTrailer name vals \<in> set (events h) \<longleftrightarrow> (name, vals) \<in> set ?T"
    and f: "filter usesTrailerValue (events h) = filter usesTrailerValue (?ent ?T)"
    using serverHandler_EOF_printed [OF assms] by blast
  have q: "trailerHeaderName \<notin> fst ` set ?T \<longrightarrow> filter usesTrailerValue (events h) = []"
    using f filter_entries_none by simp
  let ?r1 = "r\<lparr>Body := (Body r)\<lparr>trailerAtEOF :=
               filter (\<lambda>(name, values). name = trailerHeaderName) ?T\<rparr>\<rparr>"
  have "readErr (Body ?r1) = EOF" using assms by simp
  from serverHandler_EOF_uses [OF this, of w writeErr]
  obtain h1 where h1: "serverHandler w ?r1 writeErr = Inr h1"
    and f1: "filter usesTrailerValue (events h1) =
               filter usesTrailerValue (?ent (filter (\<lambda>(name, values). name = trailerHeaderName) ?T))"
    by auto
  have s: "\<exists>h'. serverHandler w ?r1 writeErr = Inr h'
             \<and> filter usesTrailerValue (events h') = filter usesTrailerValue (events h)"
    using h1 f1 f filter_entries_named [of ?n ?T] by simp
  have t: "\<forall>hdr. \<exists>h'. serverHandler w (r\<lparr>Header := hdr\<rparr>) writeErr = Inr h'
                  \<and> filter usesTrailerValue (events h') = filter usesTrailerValue (events h)"
  proof
    fix hdr
    have "readErr (Body (r\<lparr>Header := hdr\<rparr>)) = EOF" using assms by simp
    from serverHandler_EOF_uses [OF this, of w writeErr] f
    show "\<exists>h'. serverHandler w (r\<lparr>Header := hdr\<rparr>) writeErr = Inr h'
                  \<and> filter usesTrailerValue (events h') = filter usesTrailerValue (events h)"
      by auto
  qed
  from h p q s t show ?thesis by blast
qed

text \<open>C4, amended, at a trailer map whose only entry has another name.\<close>

theorem name_binding_witness:
  "readErr (Body (incoming [(''Trailer'', [''X-Other''])] [''X-Other''] ''abcde'' EOF
      [(''X-Other'', [''5''])])) = EOF
   \<and> trailerHeaderName \<notin> fst ` set [(''X-Other'', [''5''])]
   \<and> (\<exists>h. serverHandler newResponseWriter
              (incoming [(''Trailer'', [''X-Other''])] [''X-Other''] ''abcde'' EOF
                 [(''X-Other'', [''5''])]) None = Inr h
           \<and> PrintTrailer ''X-Other'' [''5''] \<in> set (events h)
           \<and> filter usesTrailerValue (events h) = [])"
proof -
  let ?r = "incoming [(''Trailer'', [''X-Other''])] [''X-Other''] ''abcde'' EOF [(''X-Other'', [''5''])]"
  have 1: "readErr (Body ?r) = EOF" by (simp add: incoming_def)
  have 2: "trailerHeaderName \<notin> fst ` set [(''X-Other'', [''5''])]"
    by (simp add: trailerHeaderName_def)
  have 3: "trailerAtEOF (Body ?r) = [(''X-Other'', [''5''])]" by (simp add: incoming_def)
  from name_binding [OF 1, of newResponseWriter None]
  obtain h where h: "serverHandler newResponseWriter ?r None = Inr h"
    and p: "\<forall>name vals. PrintTrailer name vals \<in> set (events h)
                 \<longleftrightarrow> (name, vals) \<in> set (trailerAtEOF (Body ?r))"
    and q: "trailerHeaderName \<notin> fst ` set (trailerAtEOF (Body ?r))
                 \<longrightarrow> filter usesTrailerValue (events h) = []"
    by blast
  from p have "PrintTrailer ''X-Other'' [''5''] \<in> set (events h)" unfolding 3 by simp
  moreover from q 2 have "filter usesTrailerValue (events h) = []" unfolding 3 by blast
  ultimately show ?thesis using 1 2 h by blast
qed

text \<open>
  C4 as stated fails for a request that announces \<open>X-Other\<close> and carries the
  trailer field \<open>X-Body-Byte-Length\<close>: the field's name is not the value of the
  \<open>Trailer\<close> header, yet the handler verifies it and reports a match.
\<close>

theorem announce_header_not_consulted:
  "headerGet [(''Trailer'', [''X-Other''])] ''Trailer'' = ''X-Other''
   \<and> ''X-Body-Byte-Length'' \<noteq> ''X-Other''
   \<and> serverHandler newResponseWriter
       (incoming [(''Trailer'', [''X-Other''])] [''X-Other''] ''abcde'' EOF
          [(''X-Body-Byte-Length'', [''5''])]) None =
     Inr \<lparr>events =
            [LogReceived, LogMethod ''POST'', LogInitialHeaders,
             PrintHeader ''Trailer'' [''X-Other''],
             LogAnnounced ''X-Other'', CallReadAll, LogReadBody 5 ''abcde'',
             LogTrailerHeaders, LenTrailer,
             PrintTrailer ''X-Body-Byte-Length'' [''5''], LogReported 5, LogMatch,
             CallWriteHeader 200, CallWrite confirmation, LogSent, CallBodyClose],
          writer = \<lparr>status = Some 200, written = confirmation\<rparr>,
          request =
            (incoming [(''Trailer'', [''X-Other''])] [''X-Other'']
               ''abcde'' EOF [(''X-Body-Byte-Length'', [''5''])])
              \<lparr>Trailer := [(''X-Body-Byte-Length'', [''5''])]\<rparr>\<rparr>"
proof -
  have a: "Atoi ''5'' = Inr 5" by (simp add: atoi_eval)
  have c: "trailerEntry 5 ''X-Body-Byte-Length'' [''5''] =
             Inr [PrintTrailer ''X-Body-Byte-Length'' [''5''], LogReported 5, LogMatch]"
    by (simp add: trailerEntry_def trailerHeaderName_def len_def index_def a verify_def)
  have d: "headerGet [(''Trailer'', [''X-Other''])] ''Trailer'' = ''X-Other''"
    by (simp add: headerGet_def canonical_Trailer)
  show ?thesis
    apply (intro conjI)
      apply (rule d)
     apply simp
    apply (simp add: serverHandler_def ReadAll_def incoming_def len_def c d
        Write_def WriteHeader_def newResponseWriter_def StatusOK_def)
    done
qed

text \<open>
  C5 (body-read failure). If reading the body ends with an error other than \<open>EOF\<close>,
  the handler answers with status 500 and the message \<open>Error reading request body\<close>,
  which is not the 200 confirmation; it logs the read error; none of its events touches
  the trailer map (no length test, no print, no parse, no verdict); and the request,
  its trailer map included, is left as it was.
\<close>

theorem body_read_failure:
  assumes "readErr (Body r) \<noteq> EOF"
  shows "\<exists>h. serverHandler newResponseWriter r writeErr = Inr h
           \<and> status (writer h) = Some 500
           \<and> written (writer h) = ''Error reading request body'' @ [CHR 0x0A]
           \<and> writer h \<noteq> Write confirmation (WriteHeader StatusOK newResponseWriter)
           \<and> list_all (\<lambda>e. \<not> trailerPhase e) (events h)
           \<and> CallWriteHeader StatusOK \<notin> set (events h)
           \<and> CallWrite confirmation \<notin> set (events h)
           \<and> LogReadError (readErr (Body r)) \<in> set (events h)
           \<and> request h = r"
  unfolding serverHandler_failed [OF assms]
  by (auto simp add: httpError_def Write_def WriteHeader_def newResponseWriter_def StatusOK_def
      StatusInternalServerError_def header_events_no_trailerPhase)

text \<open>C5 at a body that breaks off after two bytes.\<close>

theorem body_read_failure_witness:
  "readErr (Body (incoming [] [''X-Body-Byte-Length''] ''ab'' ErrUnexpectedEOF
      [(''X-Body-Byte-Length'', [''5''])])) \<noteq> EOF
   \<and> serverHandler newResponseWriter
       (incoming [] [''X-Body-Byte-Length''] ''ab'' ErrUnexpectedEOF
          [(''X-Body-Byte-Length'', [''5''])]) None =
     Inr \<lparr>events =
            [LogReceived, LogMethod ''POST'', LogInitialHeaders,
             LogAnnounced [], CallReadAll, LogReadError ErrUnexpectedEOF,
             CallHttpError ''Error reading request body'' 500, CallBodyClose],
          writer = \<lparr>status = Some 500, written = ''Error reading request body'' @ [CHR 0x0A]\<rparr>,
          request = incoming [] [''X-Body-Byte-Length''] ''ab'' ErrUnexpectedEOF
                      [(''X-Body-Byte-Length'', [''5''])]\<rparr>"
proof -
  let ?r = "incoming [] [''X-Body-Byte-Length''] ''ab'' ErrUnexpectedEOF [(''X-Body-Byte-Length'', [''5''])]"
  have 1: "readErr (Body ?r) \<noteq> EOF" by (simp add: incoming_def)
  have e: "serverHandler newResponseWriter ?r None =
     Inr \<lparr>events =
            [LogReceived, LogMethod ''POST'', LogInitialHeaders,
             LogAnnounced [], CallReadAll, LogReadError ErrUnexpectedEOF,
             CallHttpError ''Error reading request body'' 500, CallBodyClose],
          writer = \<lparr>status = Some 500, written = ''Error reading request body'' @ [CHR 0x0A]\<rparr>,
          request = ?r\<rparr>"
    by (simp add: serverHandler_def ReadAll_def incoming_def headerGet_def
        httpError_def Write_def WriteHeader_def newResponseWriter_def StatusOK_def
        StatusInternalServerError_def)
  show ?thesis using body_read_failure [OF 1, of None] 1 e by simp
qed

text \<open>
  C6 (the response does not depend on the verification). Whenever the body read
  succeeds, the handler answers with status 200 and the fixed confirmation, and the
  response writer ends in the same state for every other trailer map the request might
  have carried.
\<close>

theorem response_independent_of_verification:
  assumes "readErr (Body r) = EOF"
  shows "\<exists>h. serverHandler newResponseWriter r writeErr = Inr h
           \<and> status (writer h) = Some 200
           \<and> written (writer h) = confirmation
           \<and> (\<forall>T. \<exists>h'. serverHandler newResponseWriter
                           (r\<lparr>Body := (Body r)\<lparr>trailerAtEOF := T\<rparr>\<rparr>) writeErr = Inr h'
                        \<and> writer h' = writer h)"
proof -
  obtain h where h: "serverHandler newResponseWriter r writeErr = Inr h"
    and wr: "writer h = Write confirmation (WriteHeader StatusOK newResponseWriter)"
    using serverHandler_EOF_uses [OF assms] by blast
  have "\<exists>h'. serverHandler newResponseWriter (r\<lparr>Body := (Body r)\<lparr>trailerAtEOF := T\<rparr>\<rparr>) writeErr = Inr h'
            \<and> writer h' = writer h" for T
  proof -
    have "readErr (Body (r\<lparr>Body := (Body r)\<lparr>trailerAtEOF := T\<rparr>\<rparr>)) = EOF" using assms by simp
    from serverHandler_EOF_uses [OF this, of newResponseWriter writeErr] wr
    show ?thesis by auto
  qed
  with h wr show ?thesis
    by (simp add: Write_def WriteHeader_def newResponseWriter_def StatusOK_def)
qed

text \<open>C6 at a request whose verification reports a mismatch.\<close>

theorem response_independent_of_verification_witness:
  "readErr (Body (incoming [] [''X-Body-Byte-Length''] ''abcde'' EOF
      [(''X-Body-Byte-Length'', [''7''])])) = EOF
   \<and> (\<exists>h. serverHandler newResponseWriter
              (incoming [] [''X-Body-Byte-Length''] ''abcde'' EOF
                 [(''X-Body-Byte-Length'', [''7''])]) None = Inr h
           \<and> LogMismatch \<in> set (events h)
           \<and> status (writer h) = Some 200
           \<and> written (writer h) = confirmation)"
proof -
  let ?r = "incoming [] [''X-Body-Byte-Length''] ''abcde'' EOF [(''X-Body-Byte-Length'', [''7''])]"
  have 1: "readErr (Body ?r) = EOF" by (simp add: incoming_def)
  have a: "Atoi ''7'' = Inr 7" by (simp add: atoi_eval)
  have c: "trailerEntry 5 ''X-Body-Byte-Length'' [''7''] =
             Inr [PrintTrailer ''X-Body-Byte-Length'' [''7''], LogReported 7, LogMismatch]"
    by (simp add: trailerEntry_def trailerHeaderName_def len_def index_def a verify_def)
  have m: "LogMismatch \<in> set (events (projr (serverHandler newResponseWriter ?r None)))"
    by (simp add: serverHandler_def ReadAll_def incoming_def len_def c)
  show ?thesis
    using response_independent_of_verification [OF 1, of None] 1 m by auto
qed

text \<open>
  C7 (step order). The events of every run of the handler split at the one call of
  \<open>io.ReadAll\<close>: before it come exactly the header-phase events (method, every
  header, the announce header's value), none of which touches the trailer map; after it
  comes no header-phase event and no second read. So every access to the trailer map
  and every verdict comes after the body read has returned. The trailer map the handler
  inspects is the one the request holds after the read: the entries it prints are those
  delivered at the end of the body, and none when the read failed.
\<close>

theorem handler_step_order:
  "\<exists>h pre post. serverHandler w r writeErr = Inr h
     \<and> events h = pre @ CallReadAll # post
     \<and> pre = [LogReceived, LogMethod (Method r), LogInitialHeaders]
             @ map (\<lambda>(name, values). PrintHeader name values) (Header r)
             @ [LogAnnounced (headerGet (Header r) ''Trailer'')]
     \<and> list_all headerPhase pre
     \<and> list_all (\<lambda>e. \<not> trailerPhase e) pre
     \<and> list_all (\<lambda>e. \<not> headerPhase e \<and> e \<noteq> CallReadAll) post
     \<and> Trailer (request h) = (if readErr (Body r) = EOF then trailerAtEOF (Body r) else Trailer r)
     \<and> (\<forall>name vals. PrintTrailer name vals \<in> set post
           \<longleftrightarrow> readErr (Body r) = EOF \<and> (name, vals) \<in> set (trailerAtEOF (Body r)))"
proof -
  let ?pre = "[LogReceived, LogMethod (Method r), LogInitialHeaders]
             @ map (\<lambda>(name, values). PrintHeader name values) (Header r)
             @ [LogAnnounced (headerGet (Header r) ''Trailer'')]"
  have pre1: "list_all headerPhase ?pre" by (simp add: header_events_headerPhase)
  have pre2: "list_all (\<lambda>e. \<not> trailerPhase e) ?pre" by (simp add: header_events_no_trailerPhase)
  show ?thesis
  proof (cases "readErr (Body r) = EOF")
    case True
    let ?n = "len (content (Body r))"
    let ?T = "trailerAtEOF (Body r)"
    let ?ent = "concat (map (\<lambda>(name, values). projr (trailerEntry ?n name values)) ?T)"
    let ?post = "[LogReadBody ?n (content (Body r)), LogTrailerHeaders, LenTrailer]
               @ (if ?T = [] then [LogNoTrailers] else ?ent)
               @ [CallWriteHeader StatusOK, CallWrite confirmation,
                  (case writeErr of Some e \<Rightarrow> LogWriteError e | None \<Rightarrow> LogSent),
                  CallBodyClose]"
    obtain h where h: "serverHandler w r writeErr = Inr h"
      and ev: "events h = ?pre @ CallReadAll # ?post"
      and rq: "request h = r\<lparr>Trailer := ?T\<rparr>"
      using serverHandler_EOF_events [OF True, of w writeErr] by auto
    have post1: "list_all (\<lambda>e. \<not> headerPhase e \<and> e \<noteq> CallReadAll) ?post"
      using entries_after_read [of ?n ?T] by (simp split: option.splits)
    have post2: "\<forall>name vals. PrintTrailer name vals \<in> set ?post
           \<longleftrightarrow> readErr (Body r) = EOF \<and> (name, vals) \<in> set ?T"
      using True printed_entries [of _ _ ?n ?T] by (auto split: option.splits)
    from h ev rq pre1 pre2 post1 post2 True show ?thesis
      by (intro exI [of _ h] exI [of _ ?pre] exI [of _ ?post]) simp
  next
    case False
    let ?post = "[LogReadError (readErr (Body r)),
                  CallHttpError ''Error reading request body'' StatusInternalServerError,
                  CallBodyClose]"
    have h: "serverHandler w r writeErr =
       Inr \<lparr>events = ?pre @ CallReadAll # ?post,
            writer = httpError w ''Error reading request body'' StatusInternalServerError,
            request = r\<rparr>"
      using serverHandler_failed [OF False, of w writeErr] by simp
    show ?thesis
      apply (rule exI [of _ "\<lparr>events = ?pre @ CallReadAll # ?post,
            writer = httpError w ''Error reading request body'' StatusInternalServerError,
            request = r\<rparr>"])
      apply (rule exI [of _ ?pre])
      apply (rule exI [of _ ?post])
      using h pre1 pre2 False apply simp
      done
  qed
qed

text \<open>C7 at the request of the demonstration.\<close>

theorem handler_step_order_witness:
  "\<exists>h post. serverHandler newResponseWriter
       (incoming [(''Trailer'', [''X-Body-Byte-Length''])] [''X-Body-Byte-Length''] ''abcde'' EOF
          [(''X-Body-Byte-Length'', [''5''])]) None = Inr h
     \<and> events h = [LogReceived, LogMethod ''POST'', LogInitialHeaders,
                   PrintHeader ''Trailer'' [''X-Body-Byte-Length''],
                   LogAnnounced ''X-Body-Byte-Length''] @ CallReadAll # post
     \<and> PrintTrailer ''X-Body-Byte-Length'' [''5''] \<in> set post
     \<and> PrintTrailer ''X-Body-Byte-Length'' [] \<notin> set post
     \<and> Trailer (request h) = [(''X-Body-Byte-Length'', [''5''])]"
proof -
  let ?r = "incoming [(''Trailer'', [''X-Body-Byte-Length''])] [''X-Body-Byte-Length''] ''abcde'' EOF
          [(''X-Body-Byte-Length'', [''5''])]"
  have d: "headerGet [(''Trailer'', [''X-Body-Byte-Length''])] ''Trailer'' = ''X-Body-Byte-Length''"
    by (simp add: headerGet_def canonical_Trailer)
  from handler_step_order [of newResponseWriter ?r None]
  obtain h pre post where h: "serverHandler newResponseWriter ?r None = Inr h"
    and ev: "events h = pre @ CallReadAll # post"
    and pre: "pre = [LogReceived, LogMethod (Method ?r), LogInitialHeaders]
             @ map (\<lambda>(name, values). PrintHeader name values) (Header ?r)
             @ [LogAnnounced (headerGet (Header ?r) ''Trailer'')]"
    and tr: "Trailer (request h) = (if readErr (Body ?r) = EOF then trailerAtEOF (Body ?r) else Trailer ?r)"
    and pt: "\<forall>name vals. PrintTrailer name vals \<in> set post
           \<longleftrightarrow> readErr (Body ?r) = EOF \<and> (name, vals) \<in> set (trailerAtEOF (Body ?r))"
    by blast
  have pre': "pre = [LogReceived, LogMethod ''POST'', LogInitialHeaders,
                   PrintHeader ''Trailer'' [''X-Body-Byte-Length''],
                   LogAnnounced ''X-Body-Byte-Length'']"
    using pre d by (simp add: incoming_def)
  have tr': "Trailer (request h) = [(''X-Body-Byte-Length'', [''5''])]"
    using tr by (simp add: incoming_def)
  have p1: "PrintTrailer ''X-Body-Byte-Length'' [''5''] \<in> set post"
    using pt by (simp add: incoming_def)
  have p2: "PrintTrailer ''X-Body-Byte-Length'' [] \<notin> set post"
    using pt by (simp add: incoming_def)
  show ?thesis using h ev pre' tr' p1 p2 by auto
qed

text \<open>
  C8 (the body producer). On the fresh pipe of \<open>main\<close>, whatever the reading side
  does: if the write succeeds, the producer has written the whole payload and then
  closed the write end, and the reading side gets the payload followed by a clean end
  of stream; if the write fails with \<open>e\<close>, the producer closes the write end with
  \<open>CloseWithError(e)\<close> instead, the write end records \<open>e\<close>, and the reading side
  gets the error \<open>e\<close>, which is not \<open>EOF\<close>, after the bytes it had taken.
\<close>

theorem producer_contract:
  assumes "pipeWrite P rd Pipe = ((n, writeErr), p1)"
  shows "case writeErr of
           None \<Rightarrow>
             fst (producer P rd Pipe) =
               [LogStartWrite, CallPipeWrite P, LogFinishedWrite, CallPipeClose]
             \<and> n = length P
             \<and> delivered (snd (producer P rd Pipe)) = P
             \<and> werr (snd (producer P rd Pipe)) = Some EOF
             \<and> pipeReadAll (snd (producer P rd Pipe)) = Some (P, None)
         | Some e \<Rightarrow>
             fst (producer P rd Pipe) =
               [LogStartWrite, CallPipeWrite P, LogPipeWriteError e, CallCloseWithError e]
             \<and> werr (snd (producer P rd Pipe)) = Some e
             \<and> e \<noteq> EOF
             \<and> pipeReadAll (snd (producer P rd Pipe)) = Some (take n P, Some e)"
proof (cases rd)
  case Drains
  with assms have "writeErr = None" "n = length P"
    by (auto simp: pipeWrite_def Pipe_def pipeDone_def)
  then show ?thesis
    by (simp add: Drains producer_Drains pipeReadAll_def pipeDone_def readCloseError_def)
next
  case (ClosesAfter k)
  show ?thesis
  proof (cases "k < length P \<or> P = []")
    case True
    with assms ClosesAfter have w: "writeErr = Some ErrClosedPipe" and n: "n = min k (length P)"
      by (auto simp: pipeWrite_def Pipe_def pipeDone_def closeRead_def storeOnce_def
          writeCloseError_def Let_def)
    have "take n P = take k P" using n by (simp add: min_def)
    then show ?thesis
      by (simp add: w ClosesAfter producer_Closes [OF True] pipeReadAll_def pipeDone_def
          readCloseError_def)
  next
    case False
    with assms ClosesAfter have w: "writeErr = None" and n: "n = length P"
      by (auto simp: pipeWrite_def Pipe_def pipeDone_def)
    have "producer P (ClosesAfter k) Pipe =
       ([LogStartWrite, CallPipeWrite P, LogFinishedWrite, CallPipeClose],
        \<lparr>rerr = None, werr = Some EOF, delivered = P\<rparr>)"
      using False
      by (simp add: producer_def pipeWrite_def Pipe_def pipeDone_def pipeWriterClose_def
          pipeWriterCloseWithError_def closeWrite_def storeOnce_def)
    then show ?thesis
      by (simp add: w n ClosesAfter pipeReadAll_def pipeDone_def readCloseError_def)
  qed
qed

text \<open>C8 at a reader that takes everything and at one that closes after two bytes.\<close>

theorem producer_contract_witness:
  "pipeWrite ''abcde'' Drains Pipe =
     ((5, None), \<lparr>rerr = None, werr = None, delivered = ''abcde''\<rparr>)
   \<and> producer ''abcde'' Drains Pipe =
       ([LogStartWrite, CallPipeWrite ''abcde'', LogFinishedWrite, CallPipeClose],
        \<lparr>rerr = None, werr = Some EOF, delivered = ''abcde''\<rparr>)
   \<and> pipeReadAll (snd (producer ''abcde'' Drains Pipe)) = Some (''abcde'', None)
   \<and> pipeWrite ''abcde'' (ClosesAfter 2) Pipe =
       ((2, Some ErrClosedPipe), \<lparr>rerr = Some ErrClosedPipe, werr = None, delivered = ''ab''\<rparr>)
   \<and> fst (producer ''abcde'' (ClosesAfter 2) Pipe) =
       [LogStartWrite, CallPipeWrite ''abcde'', LogPipeWriteError ErrClosedPipe,
        CallCloseWithError ErrClosedPipe]
   \<and> pipeReadAll (snd (producer ''abcde'' (ClosesAfter 2) Pipe)) = Some (''ab'', Some ErrClosedPipe)"
proof -
  have 1: "pipeWrite ''abcde'' Drains Pipe =
     ((5, None), \<lparr>rerr = None, werr = None, delivered = ''abcde''\<rparr>)"
    by (simp add: pipeWrite_def Pipe_def pipeDone_def)
  have 2: "pipeWrite ''abcde'' (ClosesAfter 2) Pipe =
       ((2, Some ErrClosedPipe), \<lparr>rerr = Some ErrClosedPipe, werr = None, delivered = ''ab''\<rparr>)"
    by (simp add: pipeWrite_def Pipe_def pipeDone_def closeRead_def storeOnce_def
        writeCloseError_def Let_def)
  show ?thesis
    using producer_contract [OF 1] producer_contract [OF 2] 1 2
    by (simp add: producer_Drains)
qed

text \<open>
  C9 (what the client sets). The request built by the client has the header
  \<open>Trailer\<close> with the single value \<open>X-Body-Byte-Length\<close>, and its trailer map has
  the single field \<open>X-Body-Byte-Length\<close> whose value is \<open>strconv.Itoa\<close> of the
  body's byte length: a string of decimal digits that reads back as that length.
\<close>

theorem client_announces_and_declares:
  assumes "len c \<le> maxInt"
  shows "Header (clientRequest c) = [(''Trailer'', [''X-Body-Byte-Length''])]
       \<and> headerGet (Header (clientRequest c)) ''Trailer'' = trailerHeaderName
       \<and> Trailer (clientRequest c) = [(''X-Body-Byte-Length'', [Itoa (len c)])]
       \<and> list_all isDigit (Itoa (len c))
       \<and> Atoi (Itoa (len c)) = Inr (len c)"
proof -
  have "Atoi (Itoa (len c)) = Inr (len c)"
    using assms by (intro Atoi_Itoa) (simp_all add: len_def)
  moreover have "list_all isDigit (Itoa (len c))"
    by (simp add: Itoa_def len_def formatBits_digits)
  ultimately show ?thesis
    by (simp add: clientRequest_eq headerGet_def canonical_Trailer trailerHeaderName_def)
qed

text \<open>C9 at the body of \<open>main\<close>: the value is \<open>5\<close> for the 5-byte body.\<close>

theorem client_announces_and_declares_witness:
  "len requestBodyContent \<le> maxInt
   \<and> len requestBodyContent = 5
   \<and> Header (clientRequest requestBodyContent) = [(''Trailer'', [''X-Body-Byte-Length''])]
   \<and> Trailer (clientRequest requestBodyContent) = [(''X-Body-Byte-Length'', [''5''])]"
proof -
  have 1: "len requestBodyContent \<le> maxInt"
    by (simp add: requestBodyContent_def len_def maxInt_def intSize_def)
  have 5: "Itoa (len requestBodyContent) = ''5''"
    by (simp add: requestBodyContent_def len_def Itoa_def formatBits.simps [of 5] digits_def)
  show ?thesis
    using client_announces_and_declares [OF 1] 1 5
    by (simp add: requestBodyContent_def len_def)
qed

text \<open>
  C10 (guarded access to the value list). For a request whose body has been read and
  whose trailer map holds the expected name: the entry is printed, and the events
  drawn from its values depend on the first value only (its parse error, or its report
  and verdict); with an empty value list there is no such event. The handler never
  panics, on any request, and neither does the loop body on any entry: the read of
  \<open>values[0]\<close> is never out of range.
\<close>

theorem guarded_first_value:
  assumes "readErr (Body r) = EOF"
    and "distinct (map fst (trailerAtEOF (Body r)))"
    and "(trailerHeaderName, vals) \<in> set (trailerAtEOF (Body r))"
  shows "(\<exists>h. serverHandler w r writeErr = Inr h
            \<and> PrintTrailer trailerHeaderName vals \<in> set (events h)
            \<and> filter usesTrailerValue (events h) =
                (case vals of
                   [] \<Rightarrow> []
                 | v # vs \<Rightarrow>
                     (case Atoi v of
                        Inl cerr \<Rightarrow> [LogParseError v cerr]
                      | Inr d \<Rightarrow> [LogReported d, verify d (len (content (Body r)))])))
       \<and> (\<exists>h'. serverHandler w' r' writeErr' = Inr h')
       \<and> (\<exists>es. trailerEntry n name vals' = Inr es)"
proof -
  let ?n = "len (content (Body r))"
  let ?T = "trailerAtEOF (Body r)"
  obtain h where h: "serverHandler w r writeErr = Inr h"
    and p: "\<forall>name vals. PrintTrailer name vals \<in> set (events h) \<longleftrightarrow> (name, vals) \<in> set ?T"
    and f: "filter usesTrailerValue (events h) =
             filter usesTrailerValue
               (concat (map (\<lambda>(name, values). projr (trailerEntry ?n name values)) ?T))"
    using serverHandler_EOF_printed [OF assms(1)] by blast
  have g: "filter usesTrailerValue (events h) =
             filter usesTrailerValue (projr (trailerEntry ?n trailerHeaderName vals))"
    using f filter_entries_one [OF assms(2,3)] by simp
  have "filter usesTrailerValue (projr (trailerEntry ?n trailerHeaderName vals)) =
          (case vals of
             [] \<Rightarrow> []
           | v # vs \<Rightarrow>
               (case Atoi v of
                  Inl cerr \<Rightarrow> [LogParseError v cerr]
                | Inr d \<Rightarrow> [LogReported d, verify d ?n]))"
    by (cases vals) (simp_all add: entry_empty entry_value usesTrailerValue_verify split: sum.splits)
  with g h p assms(3) have first: "\<exists>h. serverHandler w r writeErr = Inr h
            \<and> PrintTrailer trailerHeaderName vals \<in> set (events h)
            \<and> filter usesTrailerValue (events h) =
                (case vals of
                   [] \<Rightarrow> []
                 | v # vs \<Rightarrow>
                     (case Atoi v of
                        Inl cerr \<Rightarrow> [LogParseError v cerr]
                      | Inr d \<Rightarrow> [LogReported d, verify d ?n]))"
    by auto
  have "\<exists>es. trailerEntry n name vals' = Inr es" by (simp add: trailerEntry_eq)
  with first serverHandler_total [of w' r' writeErr'] show ?thesis by blast
qed

text \<open>C10 at a field with two values and at a field with none.\<close>

theorem guarded_first_value_witness:
  "(\<exists>h. serverHandler newResponseWriter
            (incoming [] [''X-Body-Byte-Length''] ''abcde'' EOF
               [(''X-Body-Byte-Length'', [''5'', ''7''])]) None = Inr h
         \<and> PrintTrailer ''X-Body-Byte-Length'' [''5'', ''7''] \<in> set (events h)
         \<and> filter usesTrailerValue (events h) = [LogReported 5, LogMatch])
   \<and> (\<exists>h. serverHandler newResponseWriter
            (incoming [] [''X-Body-Byte-Length''] ''abcde'' EOF
               [(''X-Body-Byte-Length'', [])]) None = Inr h
         \<and> PrintTrailer ''X-Body-Byte-Length'' [] \<in> set (events h)
         \<and> filter usesTrailerValue (events h) = [])"
proof -
  let ?r = "incoming [] [''X-Body-Byte-Length''] ''abcde'' EOF [(''X-Body-Byte-Length'', [''5'', ''7''])]"
  let ?q = "incoming [] [''X-Body-Byte-Length''] ''abcde'' EOF [(''X-Body-Byte-Length'', [])]"
  have r1: "readErr (Body ?r) = EOF" and q1: "readErr (Body ?q) = EOF"
    by (simp_all add: incoming_def)
  have r2: "distinct (map fst (trailerAtEOF (Body ?r)))"
    and q2: "distinct (map fst (trailerAtEOF (Body ?q)))"
    by (simp_all add: incoming_def)
  have r3: "(trailerHeaderName, [''5'', ''7'']) \<in> set (trailerAtEOF (Body ?r))"
    and q3: "(trailerHeaderName, []) \<in> set (trailerAtEOF (Body ?q))"
    by (simp_all add: incoming_def trailerHeaderName_def)
  have a: "Atoi ''5'' = Inr 5" by (simp add: atoi_eval)
  have c: "len (content (Body ?r)) = 5" by (simp add: incoming_def len_def)
  show ?thesis
    using guarded_first_value [OF r1 r2 r3, of newResponseWriter None]
      guarded_first_value [OF q1 q2 q3, of newResponseWriter None]
    by (simp add: a c verify_def trailerHeaderName_def)
qed

end
